theory Spec2Isabelle
  imports Main "HOL-Library.Word"
begin

section \<open>Data model of connection.go\<close>

type_synonym int32 = "32 word"
type_synonym int16 = "16 word"
type_synonym bytes = "8 word list"

text \<open>
  A response channel (\<^verbatim>\<open>chan []byte\<close>) is a reference; channels made by
  \<^verbatim>\<open>make\<close> are numbered in the order of their creation.
\<close>

type_synonym chan = nat

text \<open>
  Errors. \<open>ErrClosed\<close> is the package variable of line 19,
  \<open>CorrelationConflict id\<close> is \<^verbatim>\<open>fmt.Errorf("correlation conflict: %d", id)\<close>,
  \<open>WaitForResponse e\<close> is \<^verbatim>\<open>fmt.Errorf("wait for response: %s", e)\<close>, and
  \<open>External s\<close> is any error value produced by a collaborator: the stream
  (\<^verbatim>\<open>io.ReadWriteCloser\<close>), the framing and the decoders of package proto.
\<close>

datatype error =
    ErrClosed
  | CorrelationConflict int32
  | WaitForResponse error
  | External string

text \<open>
  The request types of package proto are not part of this file; the record keeps the
  fields connection.go reads or writes (\<^verbatim>\<open>CorrelationID\<close> of every request,
  \<^verbatim>\<open>RequiredAcks\<close> of a produce request, \<^verbatim>\<open>ReplicaID\<close> of an offset request) and
  the rest of the request as opaque bytes.
\<close>

record request =
  CorrelationID :: int32
  RequiredAcks :: int16
  ReplicaID :: int32
  body :: bytes

text \<open>Where the two goroutines started by \<^verbatim>\<open>newTCPConnection\<close> stand.\<close>

datatype idloop_pc =
    IdSelect    \<comment> \<open>in the \<^verbatim>\<open>select\<close> of line 54\<close>
  | IdClose     \<comment> \<open>has received from \<^verbatim>\<open>c.stop\<close>, before \<^verbatim>\<open>close(c.nextID)\<close>\<close>
  | IdReturned

datatype reader_pc =
    RdRead              \<comment> \<open>at \<^verbatim>\<open>proto.ReadResp\<close>, line 81\<close>
  | RdSend chan bytes   \<comment> \<open>blocked in \<^verbatim>\<open>rc <- b\<close>, line 96\<close>
  | RdReturned

text \<open>
  The connection: the fields of the struct, then the state that lives outside the
  struct (the channels made so far and which of them are closed, the local variable
  \<^verbatim>\<open>id\<close> of \<^verbatim>\<open>nextIDLoop\<close>, the two goroutines, the lines printed by
  \<^verbatim>\<open>log.Printf\<close>, and whether the runtime has panicked). The stream \<^verbatim>\<open>rw\<close> is
  seen through the calls made on it: the requests handed to \<^verbatim>\<open>WriteTo\<close> and the
  number of calls of \<^verbatim>\<open>Close\<close>; what the stream answers is an input of each
  operation. The mutex \<^verbatim>\<open>mu\<close> is modelled by taking each critical section as one
  atomic step.
\<close>

record connection =
  rw_written :: "request list"
  rw_closes :: nat
  stop_closed :: bool
  nextID_closed :: bool
  respc :: "int32 \<rightharpoonup> chan"
  stopErr :: "error option"
  nchans :: nat
  closed_chans :: "chan set"
  next_id :: int32
  idloop :: idloop_pc
  reader :: reader_pc
  logged :: "int32 list"
  panicked :: bool

definition MaxInt32 :: int32 where
  "MaxInt32 = 0x7FFFFFFF"

text \<open>
  \<^verbatim>\<open>newTCPConnection\<close>, lines 38-46, after a successful dial: empty table, no
  terminal reason, both goroutines started.
\<close>

definition newTCPConnection :: connection where
  "newTCPConnection =
     \<lparr> rw_written = [], rw_closes = 0, stop_closed = False, nextID_closed = False,
       respc = Map.empty, stopErr = None, nchans = 0, closed_chans = {},
       next_id = 1, idloop = IdSelect, reader = RdRead, logged = [],
       panicked = False \<rparr>"

section \<open>nextIDLoop\<close>

text \<open>Lines 59-62: the body of the \<^verbatim>\<open>case c.nextID <- id\<close> branch.\<close>

definition nextIDLoop_incr :: "int32 \<Rightarrow> int32" where
  "nextIDLoop_incr i = (let i' = i + 1 in if i' = MaxInt32 then 1 else i')"

text \<open>
  A caller's \<^verbatim>\<open>id, ok = <-c.nextID\<close>. On a closed channel it yields \<open>(0, False)\<close>.
  Otherwise it meets the send of line 58 when \<^verbatim>\<open>nextIDLoop\<close> is in its
  \<^verbatim>\<open>select\<close>, and blocks (\<open>None\<close>) when the loop has left the \<^verbatim>\<open>select\<close> and has
  not yet closed the channel.
\<close>

definition recv_nextID :: "connection \<Rightarrow> (connection \<times> int32 \<times> bool) option" where
  "recv_nextID c =
     (if nextID_closed c then Some (c, 0, False)
      else if idloop c = IdSelect
      then Some (c\<lparr>next_id := nextIDLoop_incr (next_id c)\<rparr>, next_id c, True)
      else None)"

text \<open>Lines 56-57, after the \<^verbatim>\<open>case <-c.stop\<close> branch was taken.\<close>

definition nextIDLoop_exit :: "connection \<Rightarrow> connection option" where
  "nextIDLoop_exit c =
     (if idloop c = IdClose
      then Some (c\<lparr>nextID_closed := True, idloop := IdReturned,
                   panicked := panicked c \<or> nextID_closed c\<rparr>)
      else None)"

section \<open>The pending-request table\<close>

text \<open>\<^verbatim>\<open>respWaiter\<close>, lines 107-117; the whole body runs under the mutex.\<close>

definition respWaiter :: "int32 \<Rightarrow> connection \<Rightarrow> connection \<times> (error + chan)" where
  "respWaiter correlationID c =
     (case respc c correlationID of
        Some _ \<Rightarrow> (c, Inl (CorrelationConflict correlationID))
      | None \<Rightarrow>
          let ch = nchans c;
              c1 = c\<lparr>nchans := Suc (nchans c)\<rparr>;
              c2 = c1\<lparr>respc := (respc c1)(correlationID \<mapsto> ch)\<rparr>
          in (c2, Inr ch))"

section \<open>closeConnection and Close\<close>

text \<open>
  \<^verbatim>\<open>closeConnection\<close>, lines 119-133, under the mutex. Both call sites (lines 83
  and 136) pass a non-nil error, hence the type of \<open>err\<close>. \<open>cl\<close> is what
  \<^verbatim>\<open>c.rw.Close()\<close> answers. The send of line 129 panics on a closed channel and
  otherwise needs \<^verbatim>\<open>nextIDLoop\<close> in its \<^verbatim>\<open>select\<close> to receive it; with no
  receiver the call blocks for ever (\<open>None\<close>).
\<close>

definition closeConnection ::
  "error \<Rightarrow> error option \<Rightarrow> connection \<Rightarrow> (connection \<times> error option) option" where
  "closeConnection err cl c =
     (case stopErr c of
        Some e \<Rightarrow> Some (c, Some e)
      | None \<Rightarrow>
          let c1 = c\<lparr>stopErr := Some err\<rparr> in
          if stop_closed c1 then Some (c1\<lparr>panicked := True\<rparr>, None)
          else if idloop c1 \<noteq> IdSelect then None
          else
            let c2 = c1\<lparr>idloop := IdClose\<rparr>;
                c3 = c2\<lparr>stop_closed := True\<rparr>;
                c4 = c3\<lparr>rw_closes := Suc (rw_closes c3)\<rparr>
            in Some (c4, cl))"

definition Close :: "error option \<Rightarrow> connection \<Rightarrow> (connection \<times> error option) option" where
  "Close cl c = closeConnection ErrClosed cl c"

text \<open>Two calls of \<^verbatim>\<open>Close\<close> in a row, and what each returns.\<close>

definition Close_twice ::
  "error option \<Rightarrow> error option \<Rightarrow> connection \<Rightarrow> (error option \<times> error option) option" where
  "Close_twice cl1 cl2 c =
     (case Close cl1 c of
        None \<Rightarrow> None
      | Some (c1, r1) \<Rightarrow>
          (case Close cl2 c1 of
             None \<Rightarrow> None
           | Some (c2, r2) \<Rightarrow> Some (r1, r2)))"

section \<open>readRespLoop\<close>

text \<open>What \<^verbatim>\<open>proto.ReadResp\<close> answers: a frame or an error.\<close>

datatype readresult = Frame int32 bytes | ReadErr error

text \<open>
  The deferred function of lines 71-77: every channel still in the table is closed
  (the entries stay in the table). Closing a closed channel panics.
\<close>

definition close_all :: "connection \<Rightarrow> connection" where
  "close_all c =
     c\<lparr>closed_chans := closed_chans c \<union> ran (respc c),
       panicked := panicked c \<or> ran (respc c) \<inter> closed_chans c \<noteq> {}
                   \<or> \<not> inj_on (respc c) (dom (respc c))\<rparr>"

text \<open>
  One iteration of the loop of lines 80-98, up to the point where the reader blocks
  again: at the next \<^verbatim>\<open>proto.ReadResp\<close>, or in the send \<^verbatim>\<open>rc <- b\<close> of line 96
  (the channel is unbuffered, so the send waits for the receiver). \<open>r\<close> is what
  \<^verbatim>\<open>proto.ReadResp\<close> answers. Not enabled (\<open>None\<close>) unless the reader is reading.
  On a read error the two critical sections, \<^verbatim>\<open>closeConnection\<close> and the deferred
  function, are taken together: \<^verbatim>\<open>closeConnection\<close> neither reads nor writes the
  table or the response channels, so a step of another goroutine between the two
  has the same effect when taken before both.
\<close>

definition readRespLoop :: "readresult \<Rightarrow> error option \<Rightarrow> connection \<Rightarrow> connection option" where
  "readRespLoop r cl c =
     (if reader c \<noteq> RdRead then None
      else case r of
        ReadErr err \<Rightarrow>
          (case closeConnection err cl c of
             None \<Rightarrow> None
           | Some (c1, _) \<Rightarrow> Some ((close_all c1)\<lparr>reader := RdReturned\<rparr>))
      | Frame correlationID b \<Rightarrow>
          let rc = respc c correlationID;
              c1 = c\<lparr>respc := (respc c)(correlationID := None)\<rparr>
          in (case rc of
                None \<Rightarrow> Some (c1\<lparr>logged := logged c1 @ [correlationID]\<rparr>)
              | Some ch \<Rightarrow>
                  if ch \<in> closed_chans c1 then Some (c1\<lparr>panicked := True\<rparr>)
                  else Some (c1\<lparr>reader := RdSend ch b\<rparr>)))"

text \<open>
  A caller's \<^verbatim>\<open>b, ok := <-respc\<close>. When the reader is blocked sending \<open>b\<close> on this
  channel the two meet: the caller gets \<open>(b, True)\<close>, and the reader goes on to
  \<^verbatim>\<open>close(rc)\<close> (line 97) and to the next iteration. On a closed channel the caller
  gets \<open>([], False)\<close>. Otherwise the caller blocks (\<open>None\<close>).
\<close>

definition recv_chan :: "chan \<Rightarrow> connection \<Rightarrow> (connection \<times> bytes \<times> bool) option" where
  "recv_chan ch c =
     (case reader c of
        RdSend rc b \<Rightarrow>
          if rc = ch
          then Some (c\<lparr>reader := RdRead, closed_chans := insert ch (closed_chans c),
                       panicked := panicked c \<or> ch \<in> closed_chans c\<rparr>, b, True)
          else if ch \<in> closed_chans c then Some (c, [], False)
          else None
      | _ \<Rightarrow> if ch \<in> closed_chans c then Some (c, [], False) else None)"

section \<open>The request/response operations\<close>

text \<open>
  \<^verbatim>\<open>req.WriteTo(c.rw)\<close>: the request is handed to the stream. Whether the write
  fails is the stream's answer, an input \<open>we\<close> of each operation below.
\<close>

definition WriteTo :: "request \<Rightarrow> connection \<Rightarrow> connection" where
  "WriteTo req c = c\<lparr>rw_written := rw_written c @ [req]\<rparr>"

text \<open>
  Each operation runs on its caller's goroutine up to the receive on the response
  channel, where it waits for the reader. \<open>ReturnNil e\<close> is \<^verbatim>\<open>return nil, e\<close>;
  \<open>Await ch\<close> is a caller that has reached \<^verbatim>\<open>b, ok := <-respc\<close>.
\<close>

datatype progress = ReturnNil "error option" | Await chan

definition Metadata :: "request \<Rightarrow> error option \<Rightarrow> connection \<Rightarrow> (connection \<times> progress) option" where
  "Metadata req we c =
     (case recv_nextID c of
        None \<Rightarrow> None
      | Some (c1, i, ok) \<Rightarrow>
          let req1 = req\<lparr>CorrelationID := i\<rparr> in
          if \<not> ok then Some (c1, ReturnNil (stopErr c1))
          else
            (case respWaiter (CorrelationID req1) c1 of
               (c2, Inl err) \<Rightarrow> Some (c2, ReturnNil (Some (WaitForResponse err)))
             | (c2, Inr ch) \<Rightarrow>
                 let c3 = WriteTo req1 c2 in
                 (case we of
                    Some err \<Rightarrow> Some (c3, ReturnNil (Some err))
                  | None \<Rightarrow> Some (c3, Await ch))))"

text \<open>
  \<^verbatim>\<open>proto.RequiredAcksNone\<close> is a constant of package proto, taken as the
  parameter \<open>acksNone\<close>.
\<close>

definition Produce ::
  "int16 \<Rightarrow> request \<Rightarrow> error option \<Rightarrow> connection \<Rightarrow> (connection \<times> progress) option" where
  "Produce acksNone req we c =
     (case recv_nextID c of
        None \<Rightarrow> None
      | Some (c1, i, ok) \<Rightarrow>
          let req1 = req\<lparr>CorrelationID := i\<rparr> in
          if \<not> ok then Some (c1, ReturnNil (stopErr c1))
          else if RequiredAcks req1 = acksNone
          then Some (WriteTo req1 c1, ReturnNil we)
          else
            (case respWaiter (CorrelationID req1) c1 of
               (c2, Inl err) \<Rightarrow> Some (c2, ReturnNil (Some (WaitForResponse err)))
             | (c2, Inr ch) \<Rightarrow>
                 let c3 = WriteTo req1 c2 in
                 (case we of
                    Some err \<Rightarrow> Some (c3, ReturnNil (Some err))
                  | None \<Rightarrow> Some (c3, Await ch))))"

definition Fetch :: "request \<Rightarrow> error option \<Rightarrow> connection \<Rightarrow> (connection \<times> progress) option" where
  "Fetch req we c =
     (case recv_nextID c of
        None \<Rightarrow> None
      | Some (c1, i, ok) \<Rightarrow>
          let req1 = req\<lparr>CorrelationID := i\<rparr> in
          if \<not> ok then Some (c1, ReturnNil (stopErr c1))
          else
            (case respWaiter (CorrelationID req1) c1 of
               (c2, Inl err) \<Rightarrow> Some (c2, ReturnNil (Some (WaitForResponse err)))
             | (c2, Inr ch) \<Rightarrow>
                 let c3 = WriteTo req1 c2 in
                 (case we of
                    Some err \<Rightarrow> Some (c3, ReturnNil (Some err))
                  | None \<Rightarrow> Some (c3, Await ch))))"

definition Offset :: "request \<Rightarrow> error option \<Rightarrow> connection \<Rightarrow> (connection \<times> progress) option" where
  "Offset req we c =
     (case recv_nextID c of
        None \<Rightarrow> None
      | Some (c1, i, ok) \<Rightarrow>
          let req1 = req\<lparr>CorrelationID := i\<rparr> in
          if \<not> ok then Some (c1, ReturnNil (stopErr c1))
          else
            (case respWaiter (CorrelationID req1) c1 of
               (c2, Inl err) \<Rightarrow> Some (c2, ReturnNil (Some (WaitForResponse err)))
             | (c2, Inr ch) \<Rightarrow>
                 let req2 = req1\<lparr>ReplicaID := - 1\<rparr>;
                     c3 = WriteTo req2 c2 in
                 (case we of
                    Some err \<Rightarrow> Some (c3, ReturnNil (Some err))
                  | None \<Rightarrow> Some (c3, Await ch))))"

definition ConsumerMetadata ::
  "request \<Rightarrow> error option \<Rightarrow> connection \<Rightarrow> (connection \<times> progress) option" where
  "ConsumerMetadata req we c =
     (case recv_nextID c of
        None \<Rightarrow> None
      | Some (c1, i, ok) \<Rightarrow>
          let req1 = req\<lparr>CorrelationID := i\<rparr> in
          if \<not> ok then Some (c1, ReturnNil (stopErr c1))
          else
            (case respWaiter (CorrelationID req1) c1 of
               (c2, Inl err) \<Rightarrow> Some (c2, ReturnNil (Some (WaitForResponse err)))
             | (c2, Inr ch) \<Rightarrow>
                 let c3 = WriteTo req1 c2 in
                 (case we of
                    Some err \<Rightarrow> Some (c3, ReturnNil (Some err))
                  | None \<Rightarrow> Some (c3, Await ch))))"

definition OffsetCommit ::
  "request \<Rightarrow> error option \<Rightarrow> connection \<Rightarrow> (connection \<times> progress) option" where
  "OffsetCommit req we c =
     (case recv_nextID c of
        None \<Rightarrow> None
      | Some (c1, i, ok) \<Rightarrow>
          let req1 = req\<lparr>CorrelationID := i\<rparr> in
          if \<not> ok then Some (c1, ReturnNil (stopErr c1))
          else
            (case respWaiter (CorrelationID req1) c1 of
               (c2, Inl err) \<Rightarrow> Some (c2, ReturnNil (Some (WaitForResponse err)))
             | (c2, Inr ch) \<Rightarrow>
                 let c3 = WriteTo req1 c2 in
                 (case we of
                    Some err \<Rightarrow> Some (c3, ReturnNil (Some err))
                  | None \<Rightarrow> Some (c3, Await ch))))"

definition OffsetFetch ::
  "request \<Rightarrow> error option \<Rightarrow> connection \<Rightarrow> (connection \<times> progress) option" where
  "OffsetFetch req we c =
     (case recv_nextID c of
        None \<Rightarrow> None
      | Some (c1, i, ok) \<Rightarrow>
          let req1 = req\<lparr>CorrelationID := i\<rparr> in
          if \<not> ok then Some (c1, ReturnNil (stopErr c1))
          else
            (case respWaiter (CorrelationID req1) c1 of
               (c2, Inl err) \<Rightarrow> Some (c2, ReturnNil (Some (WaitForResponse err)))
             | (c2, Inr ch) \<Rightarrow>
                 let c3 = WriteTo req1 c2 in
                 (case we of
                    Some err \<Rightarrow> Some (c3, ReturnNil (Some err))
                  | None \<Rightarrow> Some (c3, Await ch))))"

text \<open>
  The end of every operation (lines 159-166, 192-196, 215-219, 241-245, 260-264,
  279-283, 298-302): the receive on the response channel, then either the terminal
  reason or the decoded payload. \<open>dec\<close> is the operation's decoder of package proto
  (\<^verbatim>\<open>proto.ReadMetadataResp\<close> and its siblings), returning a response and an error
  as the Go function does.
\<close>

definition await_resp ::
  "(bytes \<Rightarrow> 'r option \<times> error option) \<Rightarrow> chan \<Rightarrow> connection \<Rightarrow>
   (connection \<times> 'r option \<times> error option) option" where
  "await_resp dec ch c =
     (case recv_chan ch c of
        None \<Rightarrow> None
      | Some (c1, b, ok) \<Rightarrow>
          if \<not> ok then Some (c1, None, stopErr c1) else Some (c1, dec b))"

section \<open>Interleavings\<close>

text \<open>
  The goroutines of a connection interleave their atomic steps: the callers' receive
  on \<^verbatim>\<open>c.nextID\<close>, \<^verbatim>\<open>respWaiter\<close>, the write to the stream, the receive on a
  response channel and \<^verbatim>\<open>Close\<close>; an iteration of the reader; the exit of
  \<^verbatim>\<open>nextIDLoop\<close>. A step that blocks is not taken. Callers are not restricted to
  the order in which the operations above make these steps, so every state the
  program can reach is the result of some such run.
\<close>

datatype action =
    NextID
  | RespWaiter int32
  | Write request
  | Recv chan
  | CallClose "error option"
  | ReadResp readresult "error option"
  | IdLoopExit

fun step :: "action \<Rightarrow> connection \<Rightarrow> connection option" where
  "step NextID c = map_option fst (recv_nextID c)"
| "step (RespWaiter i) c = Some (fst (respWaiter i c))"
| "step (Write req) c = Some (WriteTo req c)"
| "step (Recv ch) c = map_option fst (recv_chan ch c)"
| "step (CallClose cl) c = map_option fst (Close cl c)"
| "step (ReadResp r cl) c = readRespLoop r cl c"
| "step IdLoopExit c = nextIDLoop_exit c"

fun run :: "action list \<Rightarrow> connection \<Rightarrow> connection option" where
  "run [] c = Some c"
| "run (a # as) c = (case step a c of None \<Rightarrow> None | Some c' \<Rightarrow> run as c')"

text \<open>Whether an action is the reader taking a frame with token \<open>t\<close> off the stream.\<close>

fun frame_for :: "int32 \<Rightarrow> action \<Rightarrow> bool" where
  "frame_for t (ReadResp (Frame t' b) cl) = (t' = t)"
| "frame_for t _ = False"

text \<open>What holds in every state a run reaches from a new connection.\<close>

definition conn_inv :: "connection \<Rightarrow> bool" where
  "conn_inv c \<longleftrightarrow>
     \<not> panicked c \<and>
     (stopErr c = None \<longrightarrow> \<not> stop_closed c \<and> idloop c = IdSelect \<and> rw_closes c = 0) \<and>
     (stopErr c \<noteq> None \<longrightarrow> stop_closed c \<and> idloop c \<noteq> IdSelect \<and> rw_closes c = 1) \<and>
     (nextID_closed c \<longleftrightarrow> idloop c = IdReturned) \<and>
     (reader c = RdReturned \<longrightarrow> stopErr c \<noteq> None) \<and>
     (reader c \<noteq> RdReturned \<longrightarrow> ran (respc c) \<inter> closed_chans c = {}) \<and>
     inj_on (respc c) (dom (respc c)) \<and>
     (\<forall>ch \<in> ran (respc c). ch < nchans c) \<and>
     (\<forall>ch \<in> closed_chans c. ch < nchans c) \<and>
     (\<forall>ch b. reader c = RdSend ch b \<longrightarrow>
        ch < nchans c \<and> ch \<notin> ran (respc c) \<and> ch \<notin> closed_chans c) \<and>
     1 \<le> sint (next_id c) \<and> sint (next_id c) \<le> 2 ^ 31 - 2"

section \<open>The counter stays in range\<close>

lemma sint_succ32:
  fixes i :: int32
  assumes "1 \<le> sint i" "sint i \<le> 2 ^ 31 - 2"
  shows "sint (i + 1) = sint i + 1"
  using assms
  by (simp add: sint_word_ariths signed_take_bit_int_eq_self)

lemma MaxInt32_sint: "sint MaxInt32 = 2 ^ 31 - 1"
  by (simp add: MaxInt32_def)

lemma nextIDLoop_incr_range:
  assumes "1 \<le> sint i" "sint i \<le> 2 ^ 31 - 2"
  shows "1 \<le> sint (nextIDLoop_incr i) \<and> sint (nextIDLoop_incr i) \<le> 2 ^ 31 - 2"
proof (cases "i + 1 = MaxInt32")
  case True
  then show ?thesis by (simp add: nextIDLoop_incr_def Let_def)
next
  case False
  have s: "sint (i + 1) = sint i + 1" using assms by (rule sint_succ32)
  have "sint (i + 1) \<noteq> 2 ^ 31 - 1"
  proof
    assume "sint (i + 1) = 2 ^ 31 - 1"
    then have "sint (i + 1) = sint MaxInt32" by (simp add: MaxInt32_sint)
    then have "i + 1 = MaxInt32" by (simp only: signed_word_eqI)
    with False show False by simp
  qed
  with s assms False show ?thesis by (simp add: nextIDLoop_incr_def Let_def)
qed

section \<open>The invariant holds in every reachable state\<close>

lemma inv_new: "conn_inv newTCPConnection"
  by (simp add: conn_inv_def newTCPConnection_def)

lemma inv_recv_nextID:
  assumes "conn_inv c" "recv_nextID c = Some (c', r)"
  shows "conn_inv c'"
proof -
  have "1 \<le> sint (next_id c)" "sint (next_id c) \<le> 2 ^ 31 - 2"
    using assms(1) by (simp_all add: conn_inv_def)
  then have "1 \<le> sint (nextIDLoop_incr (next_id c)) \<and>
             sint (nextIDLoop_incr (next_id c)) \<le> 2 ^ 31 - 2"
    by (rule nextIDLoop_incr_range)
  with assms show ?thesis
    by (auto simp: recv_nextID_def conn_inv_def split: if_splits)
qed

lemma inv_nextIDLoop_exit:
  assumes "conn_inv c" "nextIDLoop_exit c = Some c'"
  shows "conn_inv c'"
  using assms by (auto simp: nextIDLoop_exit_def conn_inv_def split: if_splits)

lemma inv_WriteTo: "conn_inv c \<Longrightarrow> conn_inv (WriteTo req c)"
  by (simp add: WriteTo_def conn_inv_def)

lemma inv_respWaiter:
  assumes "conn_inv c"
  shows "conn_inv (fst (respWaiter i c))"
proof (cases "respc c i")
  case (Some ch)
  with assms show ?thesis by (simp add: respWaiter_def)
next
  case None
  have fresh: "nchans c \<notin> ran (respc c)" "nchans c \<notin> closed_chans c"
    using assms by (auto simp: conn_inv_def)
  have inj: "inj_on (respc c) (dom (respc c))"
    using assms by (simp add: conn_inv_def)
  have inj': "inj_on ((respc c)(i \<mapsto> nchans c)) (insert i (dom (respc c)))"
    unfolding inj_on_def
  proof (intro ballI impI)
    fix x y
    assume x: "x \<in> insert i (dom (respc c))" and y: "y \<in> insert i (dom (respc c))"
      and e: "((respc c)(i \<mapsto> nchans c)) x = ((respc c)(i \<mapsto> nchans c)) y"
    show "x = y"
    proof (cases "x = i")
      case True
      show ?thesis
      proof (cases "y = i")
        case True with \<open>x = i\<close> show ?thesis by simp
      next
        case False
        with True e have "respc c y = Some (nchans c)" by simp
        then have "nchans c \<in> ran (respc c)" by (auto simp: ran_def)
        with fresh show ?thesis by simp
      qed
    next
      case False
      show ?thesis
      proof (cases "y = i")
        case True
        with False e have "respc c x = Some (nchans c)" by simp
        then have "nchans c \<in> ran (respc c)" by (auto simp: ran_def)
        with fresh show ?thesis by simp
      next
        case yf: False
        from False yf e have "respc c x = respc c y" by simp
        moreover from False x have "x \<in> dom (respc c)" by simp
        moreover from yf y have "y \<in> dom (respc c)" by simp
        ultimately show ?thesis using inj by (simp add: inj_on_def)
      qed
    qed
  qed
  have ran': "ran ((respc c)(i \<mapsto> nchans c)) = insert (nchans c) (ran (respc c))"
    using None by simp
  from assms None fresh inj' ran' show ?thesis
    by (auto simp: respWaiter_def Let_def conn_inv_def less_Suc_eq)
qed

lemma ran_delete_subset: "ran (m(k := None)) \<subseteq> ran m"
  by (auto simp: ran_def split: if_splits)

lemma inj_on_delete:
  assumes "inj_on m (dom m)"
  shows "inj_on (m(k := None)) (dom (m(k := None)))"
  using assms unfolding inj_on_def by (auto split: if_splits)

lemma deleted_not_in_ran:
  assumes "inj_on m (dom m)" "m k = Some v"
  shows "v \<notin> ran (m(k := None))"
proof
  assume "v \<in> ran (m(k := None))"
  then obtain k' where k': "k' \<noteq> k" "m k' = Some v"
    by (auto simp: ran_def split: if_splits)
  with assms have "k' = k" unfolding inj_on_def by (metis domI)
  with k' show False by simp
qed

lemma inv_closeConnection:
  assumes "conn_inv c" "closeConnection err cl c = Some (c', r)"
  shows "conn_inv c'"
proof (cases "stopErr c")
  case None
  with assms show ?thesis
    by (auto simp: closeConnection_def conn_inv_def Let_def split: if_splits)
next
  case (Some e)
  with assms show ?thesis by (simp add: closeConnection_def)
qed

lemma closeConnection_stopErr:
  assumes "conn_inv c" "closeConnection err cl c = Some (c', r)"
  shows "stopErr c' \<noteq> None \<and> respc c' = respc c \<and> closed_chans c' = closed_chans c
         \<and> reader c' = reader c \<and> nchans c' = nchans c"
proof (cases "stopErr c")
  case None
  with assms show ?thesis
    by (auto simp: closeConnection_def conn_inv_def Let_def split: if_splits)
next
  case (Some e)
  with assms(2) have "c' = c" by (simp add: closeConnection_def)
  with Some show ?thesis by simp
qed

lemma inv_close_all:
  assumes "conn_inv c" "reader c = RdRead" "stopErr c \<noteq> None"
  shows "conn_inv ((close_all c)\<lparr>reader := RdReturned\<rparr>)"
  using assms
  by (auto simp: close_all_def conn_inv_def)

lemma inv_readRespLoop:
  assumes "conn_inv c" "readRespLoop r cl c = Some c'"
  shows "conn_inv c'"
proof (cases r)
  case (ReadErr err)
  with assms(2) obtain c1 r1 where c1: "closeConnection err cl c = Some (c1, r1)"
    and rd: "reader c = RdRead"
    and c': "c' = (close_all c1)\<lparr>reader := RdReturned\<rparr>"
    by (auto simp: readRespLoop_def split: if_splits option.splits)
  have "conn_inv c1" using assms(1) c1 by (rule inv_closeConnection)
  moreover have "reader c1 = RdRead" "stopErr c1 \<noteq> None"
    using closeConnection_stopErr [OF assms(1) c1] rd by simp_all
  ultimately show ?thesis unfolding c' by (rule inv_close_all)
next
  case (Frame t b)
  have rd: "reader c = RdRead"
    using assms(2) by (auto simp: readRespLoop_def split: if_splits)
  have inj: "inj_on (respc c) (dom (respc c))"
    using assms(1) by (simp add: conn_inv_def)
  have open1: "ran (respc c) \<inter> closed_chans c = {}"
    using assms(1) rd by (simp add: conn_inv_def)
  let ?m = "(respc c)(t := None)"
  have sub: "ran ?m \<subseteq> ran (respc c)" by (rule ran_delete_subset)
  have inj': "inj_on ?m (dom ?m)" using inj by (rule inj_on_delete)
  have base: "conn_inv (c\<lparr>respc := ?m\<rparr>)"
    using assms(1) sub inj' rd unfolding conn_inv_def
    by (simp del: fun_upd_apply) blast
  show ?thesis
  proof (cases "respc c t")
    case None
    with assms(2) Frame rd have "c' = c\<lparr>respc := ?m, logged := logged c @ [t]\<rparr>"
      by (simp add: readRespLoop_def Let_def)
    with base rd show ?thesis by (simp add: conn_inv_def del: fun_upd_apply)
  next
    case (Some ch)
    then have chran: "ch \<in> ran (respc c)" by (auto simp: ran_def)
    with open1 have nc: "ch \<notin> closed_chans c" by auto
    have lt: "ch < nchans c" using assms(1) chran by (simp add: conn_inv_def)
    have nr: "ch \<notin> ran ?m" using inj Some by (rule deleted_not_in_ran)
    from assms(2) Frame rd Some nc have "c' = c\<lparr>respc := ?m, reader := RdSend ch b\<rparr>"
      by (simp add: readRespLoop_def Let_def)
    with base nc lt nr rd show ?thesis by (simp add: conn_inv_def del: fun_upd_apply)
  qed
qed

lemma inv_recv_chan:
  assumes "conn_inv c" "recv_chan ch c = Some (c', r)"
  shows "conn_inv c'"
  using assms
  by (auto simp: recv_chan_def conn_inv_def split: reader_pc.splits if_splits)

lemma inv_step:
  assumes "conn_inv c" "step a c = Some c'"
  shows "conn_inv c'"
proof (cases a)
  case NextID
  with assms show ?thesis by (auto dest: inv_recv_nextID)
next
  case (RespWaiter i)
  with assms show ?thesis by (auto simp: inv_respWaiter)
next
  case (Write req)
  with assms show ?thesis by (auto simp: inv_WriteTo)
next
  case (Recv ch)
  with assms show ?thesis by (auto dest: inv_recv_chan)
next
  case (CallClose cl)
  with assms show ?thesis by (auto simp: Close_def dest: inv_closeConnection)
next
  case (ReadResp r cl)
  with assms show ?thesis by (auto dest: inv_readRespLoop)
next
  case IdLoopExit
  with assms show ?thesis by (auto dest: inv_nextIDLoop_exit)
qed

lemma inv_run:
  assumes "conn_inv c" "run as c = Some c'"
  shows "conn_inv c'"
  using assms
proof (induction as arbitrary: c)
  case Nil
  then show ?case by simp
next
  case (Cons a as)
  then show ?case by (auto split: option.splits dest: inv_step)
qed

lemma inv_reachable: "run as newTCPConnection = Some c \<Longrightarrow> conn_inv c"
  using inv_new by (rule inv_run)

section \<open>Correlation tokens\<close>

lemma step_keeps_next_id:
  assumes "a \<noteq> NextID" "step a c = Some c'"
  shows "next_id c' = next_id c"
proof (cases a)
  case NextID
  with assms show ?thesis by simp
next
  case (RespWaiter i)
  with assms show ?thesis by (auto simp: respWaiter_def Let_def split: option.splits)
next
  case (Write req)
  with assms show ?thesis by (auto simp: WriteTo_def)
next
  case (Recv ch)
  with assms show ?thesis
    by (auto simp: recv_chan_def split: reader_pc.splits if_splits)
next
  case (CallClose cl)
  with assms show ?thesis
    by (auto simp: Close_def closeConnection_def Let_def split: option.splits if_splits)
next
  case (ReadResp r cl)
  with assms show ?thesis
    by (auto simp: readRespLoop_def closeConnection_def close_all_def Let_def
             split: option.splits if_splits readresult.splits)
next
  case IdLoopExit
  with assms show ?thesis by (auto simp: nextIDLoop_exit_def split: if_splits)
qed

lemma succ_eq_MaxInt32: "(i + 1 = MaxInt32) = (i = MaxInt32 - 1)"
  by (simp add: eq_diff_eq)

text \<open>
  Claim C4. The token source is one counter: it starts at 1; the token a caller
  receives from \<^verbatim>\<open>c.nextID\<close> is the counter's value, after which the counter is
  that token plus one, or 1 when the token was the signed 32-bit maximum minus one;
  no other step changes the counter. In every reachable state the counter, hence
  every token handed out, lies between 1 and \<open>2^31 - 2\<close>: never zero, never the
  signed 32-bit maximum.
\<close>

theorem nextID_token_sequence:
  assumes "run as newTCPConnection = Some c"
  shows "next_id newTCPConnection = 1 \<and>
         1 \<le> sint (next_id c) \<and> sint (next_id c) \<le> 2 ^ 31 - 2 \<and>
         next_id c \<noteq> 0 \<and> next_id c \<noteq> MaxInt32 \<and>
         (\<forall>c' t. recv_nextID c = Some (c', t, True) \<longrightarrow>
            t = next_id c \<and>
            next_id c' = (if t = MaxInt32 - 1 then 1 else t + 1)) \<and>
         (\<forall>a c'. a \<noteq> NextID \<and> step a c = Some c' \<longrightarrow> next_id c' = next_id c)"
proof -
  have inv: "conn_inv c" using assms by (rule inv_reachable)
  then have r: "1 \<le> sint (next_id c)" "sint (next_id c) \<le> 2 ^ 31 - 2"
    by (simp_all add: conn_inv_def)
  have nz: "next_id c \<noteq> 0" using r by auto
  have nm: "next_id c \<noteq> MaxInt32" using r by (auto simp: MaxInt32_sint)
  have rc: "\<forall>c' t. recv_nextID c = Some (c', t, True) \<longrightarrow>
            t = next_id c \<and> next_id c' = (if t = MaxInt32 - 1 then 1 else t + 1)"
    by (auto simp: recv_nextID_def nextIDLoop_incr_def Let_def succ_eq_MaxInt32
             split: if_splits)
  have st: "\<forall>a c'. a \<noteq> NextID \<and> step a c = Some c' \<longrightarrow> next_id c' = next_id c"
    using step_keeps_next_id by blast
  have "next_id newTCPConnection = 1" by (simp add: newTCPConnection_def)
  with r nz nm rc st show ?thesis by blast
qed

theorem nextID_token_sequence_witness:
  "run [NextID] newTCPConnection = Some (newTCPConnection\<lparr>next_id := 2\<rparr>) \<and>
   sint (next_id (newTCPConnection\<lparr>next_id := 2\<rparr>)) = 2 \<and>
   recv_nextID (newTCPConnection\<lparr>next_id := 2\<rparr>)
     = Some (newTCPConnection\<lparr>next_id := 3\<rparr>, 2, True) \<and>
   step IdLoopExit (newTCPConnection\<lparr>next_id := 2\<rparr>) = None"
proof -
  have r: "run [NextID] newTCPConnection = Some (newTCPConnection\<lparr>next_id := 2\<rparr>)"
    by (simp add: recv_nextID_def newTCPConnection_def nextIDLoop_incr_def MaxInt32_def)
  have "recv_nextID (newTCPConnection\<lparr>next_id := 2\<rparr>)
     = Some (newTCPConnection\<lparr>next_id := 3\<rparr>, 2, True)"
    by (simp add: recv_nextID_def newTCPConnection_def nextIDLoop_incr_def MaxInt32_def)
  moreover have "step IdLoopExit (newTCPConnection\<lparr>next_id := 2\<rparr>) = None"
    by (simp add: nextIDLoop_exit_def newTCPConnection_def)
  ultimately show ?thesis using r nextID_token_sequence [OF r] by simp
qed

section \<open>The pending-request table and close\<close>

lemma step_keeps_stopErr:
  assumes "stopErr c = Some e" "step a c = Some c'"
  shows "stopErr c' = Some e"
proof (cases a)
  case NextID
  with assms show ?thesis by (auto simp: recv_nextID_def split: if_splits)
next
  case (RespWaiter i)
  with assms show ?thesis by (auto simp: respWaiter_def Let_def split: option.splits)
next
  case (Write req)
  with assms show ?thesis by (auto simp: WriteTo_def)
next
  case (Recv ch)
  with assms show ?thesis
    by (auto simp: recv_chan_def split: reader_pc.splits if_splits)
next
  case (CallClose cl)
  with assms show ?thesis
    by (auto simp: Close_def closeConnection_def)
next
  case (ReadResp r cl)
  with assms show ?thesis
    by (auto simp: readRespLoop_def closeConnection_def close_all_def Let_def
             split: if_splits readresult.splits option.splits)
next
  case IdLoopExit
  with assms show ?thesis by (auto simp: nextIDLoop_exit_def split: if_splits)
qed

lemma run_keeps_stopErr:
  assumes "stopErr c = Some e" "run as c = Some c'"
  shows "stopErr c' = Some e"
  using assms
proof (induction as arbitrary: c)
  case Nil
  then show ?case by simp
next
  case (Cons a as)
  then show ?case by (auto split: option.splits dest: step_keeps_stopErr)
qed

lemma closeConnection_first:
  assumes "conn_inv c" "stopErr c = None"
  shows "closeConnection err cl c =
           Some (c\<lparr>stopErr := Some err, idloop := IdClose, stop_closed := True,
                   rw_closes := Suc (rw_closes c)\<rparr>, cl)"
  using assms by (simp add: closeConnection_def conn_inv_def Let_def)

lemma closeConnection_later:
  assumes "stopErr c = Some e"
  shows "closeConnection err cl c = Some (c, Some e)"
  using assms by (simp add: closeConnection_def)

text \<open>
  Claim C5. In every reachable state, \<^verbatim>\<open>respWaiter\<close> called for a token that is
  pending returns the conflict error and leaves the connection, hence the whole
  table, as it was; called for a token that is not pending it adds exactly one entry,
  for that token, bound to a channel made for it (in no other entry, and open), and
  returns that channel.
\<close>

theorem respWaiter_conflict_or_register:
  assumes "run as newTCPConnection = Some c"
  shows "(respc c t \<noteq> None \<longrightarrow>
            respWaiter t c = (c, Inl (CorrelationConflict t))) \<and>
         (respc c t = None \<longrightarrow>
            respWaiter t c =
              (c\<lparr>nchans := Suc (nchans c), respc := (respc c)(t \<mapsto> nchans c)\<rparr>,
               Inr (nchans c)) \<and>
            nchans c \<notin> ran (respc c) \<and> nchans c \<notin> closed_chans c)"
proof -
  have inv: "conn_inv c" using assms by (rule inv_reachable)
  then have "nchans c \<notin> ran (respc c)" "nchans c \<notin> closed_chans c"
    by (auto simp: conn_inv_def)
  then show ?thesis by (auto simp: respWaiter_def Let_def)
qed

theorem respWaiter_conflict_or_register_witness:
  "run [RespWaiter 7] newTCPConnection
     = Some (newTCPConnection\<lparr>nchans := 1, respc := [7 \<mapsto> 0]\<rparr>) \<and>
   respWaiter 7 (newTCPConnection\<lparr>nchans := 1, respc := [7 \<mapsto> 0]\<rparr>)
     = (newTCPConnection\<lparr>nchans := 1, respc := [7 \<mapsto> 0]\<rparr>, Inl (CorrelationConflict 7)) \<and>
   respWaiter 8 (newTCPConnection\<lparr>nchans := 1, respc := [7 \<mapsto> 0]\<rparr>)
     = (newTCPConnection\<lparr>nchans := 2, respc := [7 \<mapsto> 0, 8 \<mapsto> 1]\<rparr>, Inr 1)"
proof -
  have r: "run [RespWaiter 7] newTCPConnection
     = Some (newTCPConnection\<lparr>nchans := 1, respc := [7 \<mapsto> 0]\<rparr>)"
    by (simp add: respWaiter_def newTCPConnection_def)
  show ?thesis
    using r respWaiter_conflict_or_register [OF r, of 7]
      respWaiter_conflict_or_register [OF r, of 8]
    by (simp add: newTCPConnection_def)
qed

text \<open>
  Claim C10. In every reachable state with no terminal reason recorded, the close
  call records its reason and returns what closing the stream returned (\<open>cl\<close>,
  possibly nil), not the recorded reason; with a terminal reason recorded, the close
  call changes nothing and returns the recorded reason.
\<close>

theorem closeConnection_winner_returns_stream_result:
  assumes "run as newTCPConnection = Some c"
  shows "(stopErr c = None \<longrightarrow>
            (\<exists>c'. closeConnection err cl c = Some (c', cl) \<and> stopErr c' = Some err) \<and>
            (\<exists>c'. Close cl c = Some (c', cl) \<and> stopErr c' = Some ErrClosed)) \<and>
         (\<forall>e. stopErr c = Some e \<longrightarrow>
            closeConnection err cl c = Some (c, Some e) \<and>
            Close cl c = Some (c, Some e))"
proof -
  have inv: "conn_inv c" using assms by (rule inv_reachable)
  show ?thesis
    using closeConnection_first [OF inv] closeConnection_later
    by (simp add: Close_def)
qed

theorem closeConnection_winner_returns_stream_result_witness:
  "run [] newTCPConnection = Some newTCPConnection \<and>
   Close None newTCPConnection
     = Some (newTCPConnection\<lparr>stopErr := Some ErrClosed, idloop := IdClose,
                               stop_closed := True, rw_closes := 1\<rparr>, None) \<and>
   run [CallClose None] newTCPConnection
     = Some (newTCPConnection\<lparr>stopErr := Some ErrClosed, idloop := IdClose,
                               stop_closed := True, rw_closes := 1\<rparr>) \<and>
   Close None (newTCPConnection\<lparr>stopErr := Some ErrClosed, idloop := IdClose,
                               stop_closed := True, rw_closes := 1\<rparr>)
     = Some (newTCPConnection\<lparr>stopErr := Some ErrClosed, idloop := IdClose,
                               stop_closed := True, rw_closes := 1\<rparr>, Some ErrClosed)"
proof -
  have r0: "run [] newTCPConnection = Some newTCPConnection" by simp
  have c0: "Close None newTCPConnection
     = Some (newTCPConnection\<lparr>stopErr := Some ErrClosed, idloop := IdClose,
                               stop_closed := True, rw_closes := 1\<rparr>, None)"
    by (simp add: Close_def closeConnection_def newTCPConnection_def)
  have r1: "run [CallClose None] newTCPConnection
     = Some (newTCPConnection\<lparr>stopErr := Some ErrClosed, idloop := IdClose,
                               stop_closed := True, rw_closes := 1\<rparr>)"
    using c0 by simp
  show ?thesis
    using r0 c0 r1
      closeConnection_winner_returns_stream_result [OF r0, of ErrClosed None]
      closeConnection_winner_returns_stream_result [OF r1, of ErrClosed None]
    by (simp add: newTCPConnection_def)
qed

text \<open>
  Claim C3 as stated fails: on a new connection whose stream closes without error,
  the first \<^verbatim>\<open>Close\<close> returns nil and the second returns \<^verbatim>\<open>ErrClosed\<close>, so two
  closes do not return the same value.
\<close>

theorem Close_twice_counterexample:
  "Close_twice None None newTCPConnection = Some (None, Some ErrClosed) \<and>
   fst (the (Close_twice None None newTCPConnection))
     \<noteq> snd (the (Close_twice None None newTCPConnection))"
  by (simp add: Close_twice_def Close_def closeConnection_def newTCPConnection_def)

text \<open>
  Claim C3, amended. After any close call on a reachable connection a terminal reason
  is recorded, and it is the same after any further run; every later \<^verbatim>\<open>Close\<close>
  returns that recorded reason and leaves the connection unchanged; nothing has
  panicked, the stream has been closed exactly once and \<^verbatim>\<open>c.stop\<close> is closed. The
  call that records the reason returns the stream's close result instead; a call
  that finds a reason recorded returns it and changes nothing.
\<close>

theorem Close_idempotent_after_first:
  assumes "run as newTCPConnection = Some c"
    and "Close cl c = Some (c1, r1)"
    and "run bs c1 = Some c2"
  shows "(\<exists>e. stopErr c1 = Some e \<and> stopErr c2 = Some e \<and>
              Close cl' c2 = Some (c2, Some e)) \<and>
         (stopErr c = None \<longrightarrow> stopErr c1 = Some ErrClosed \<and> r1 = cl) \<and>
         (\<forall>e. stopErr c = Some e \<longrightarrow> c1 = c \<and> r1 = Some e) \<and>
         \<not> panicked c1 \<and> \<not> panicked c2 \<and>
         rw_closes c1 = 1 \<and> rw_closes c2 = 1 \<and> stop_closed c1 \<and> stop_closed c2"
proof -
  have inv: "conn_inv c" using assms(1) by (rule inv_reachable)
  have inv1: "conn_inv c1"
    using inv assms(2) unfolding Close_def by (rule inv_closeConnection)
  have inv2: "conn_inv c2" using inv1 assms(3) by (rule inv_run)
  have first: "stopErr c = None \<longrightarrow> stopErr c1 = Some ErrClosed \<and> r1 = cl"
    using closeConnection_first [OF inv, of ErrClosed cl] assms(2)
    by (auto simp: Close_def)
  have later: "\<forall>e. stopErr c = Some e \<longrightarrow> c1 = c \<and> r1 = Some e"
    using closeConnection_later [of c _ ErrClosed cl] assms(2)
    by (auto simp: Close_def)
  obtain e where e1: "stopErr c1 = Some e"
    using first later by (cases "stopErr c") auto
  have e2: "stopErr c2 = Some e" using e1 assms(3) by (rule run_keeps_stopErr)
  have again: "Close cl' c2 = Some (c2, Some e)"
    using closeConnection_later [OF e2] by (simp add: Close_def)
  have "\<not> panicked c1" "rw_closes c1 = 1" "stop_closed c1"
    using inv1 e1 by (simp_all add: conn_inv_def)
  moreover have "\<not> panicked c2" "rw_closes c2 = 1" "stop_closed c2"
    using inv2 e2 by (simp_all add: conn_inv_def)
  ultimately show ?thesis using e1 e2 again first later by blast
qed

theorem Close_idempotent_after_first_witness:
  "run [] newTCPConnection = Some newTCPConnection \<and>
   Close None newTCPConnection
     = Some (newTCPConnection\<lparr>stopErr := Some ErrClosed, idloop := IdClose,
                               stop_closed := True, rw_closes := 1\<rparr>, None) \<and>
   run [CallClose None, IdLoopExit]
       (newTCPConnection\<lparr>stopErr := Some ErrClosed, idloop := IdClose,
                          stop_closed := True, rw_closes := 1\<rparr>)
     = Some (newTCPConnection\<lparr>stopErr := Some ErrClosed, idloop := IdReturned,
                               stop_closed := True, rw_closes := 1,
                               nextID_closed := True\<rparr>) \<and>
   Close (Some (External ''again''))
       (newTCPConnection\<lparr>stopErr := Some ErrClosed, idloop := IdReturned,
                          stop_closed := True, rw_closes := 1, nextID_closed := True\<rparr>)
     = Some (newTCPConnection\<lparr>stopErr := Some ErrClosed, idloop := IdReturned,
                               stop_closed := True, rw_closes := 1,
                               nextID_closed := True\<rparr>, Some ErrClosed)"
proof -
  let ?c1 = "newTCPConnection\<lparr>stopErr := Some ErrClosed, idloop := IdClose,
                               stop_closed := True, rw_closes := 1\<rparr>"
  let ?c2 = "newTCPConnection\<lparr>stopErr := Some ErrClosed, idloop := IdReturned,
                               stop_closed := True, rw_closes := 1,
                               nextID_closed := True\<rparr>"
  have r0: "run [] newTCPConnection = Some newTCPConnection" by simp
  have c0: "Close None newTCPConnection = Some (?c1, None)"
    by (simp add: Close_def closeConnection_def newTCPConnection_def)
  have r1: "run [CallClose None, IdLoopExit] ?c1 = Some ?c2"
    by (simp add: Close_def closeConnection_def nextIDLoop_exit_def newTCPConnection_def)
  show ?thesis
    using r0 c0 r1
      Close_idempotent_after_first [OF r0 c0 r1, of "Some (External ''again'')"]
    by simp
qed

section \<open>Routing of responses\<close>

lemma step_keeps_closed:
  assumes "ch \<in> closed_chans c" "step a c = Some c'"
  shows "ch \<in> closed_chans c'"
proof (cases a)
  case NextID
  with assms show ?thesis by (auto simp: recv_nextID_def split: if_splits)
next
  case (RespWaiter i)
  with assms show ?thesis by (auto simp: respWaiter_def Let_def split: option.splits)
next
  case (Write req)
  with assms show ?thesis by (auto simp: WriteTo_def)
next
  case (Recv ch')
  with assms show ?thesis
    by (auto simp: recv_chan_def split: reader_pc.splits if_splits)
next
  case (CallClose cl)
  with assms show ?thesis
    by (auto simp: Close_def closeConnection_def Let_def split: option.splits if_splits)
next
  case (ReadResp r cl)
  with assms show ?thesis
    by (auto simp: readRespLoop_def closeConnection_def close_all_def Let_def
             split: if_splits readresult.splits option.splits)
next
  case IdLoopExit
  with assms show ?thesis by (auto simp: nextIDLoop_exit_def split: if_splits)
qed

lemma run_keeps_closed:
  assumes "ch \<in> closed_chans c" "run as c = Some c'"
  shows "ch \<in> closed_chans c'"
  using assms
proof (induction as arbitrary: c)
  case Nil
  then show ?case by simp
next
  case (Cons a as)
  then show ?case by (auto split: option.splits dest: step_keeps_closed)
qed

lemma recv_closed_chan:
  assumes "conn_inv c" "ch \<in> closed_chans c"
  shows "recv_chan ch c = Some (c, [], False)"
  using assms by (auto simp: recv_chan_def conn_inv_def split: reader_pc.splits)

lemma send_only_from_frame:
  assumes "reader c = RdRead" "step a c = Some c'" "reader c' = RdSend ch b"
  shows "\<exists>t cl. a = ReadResp (Frame t b) cl \<and> respc c t = Some ch"
proof (cases a)
  case NextID
  with assms show ?thesis by (auto simp: recv_nextID_def split: if_splits)
next
  case (RespWaiter i)
  with assms show ?thesis by (auto simp: respWaiter_def Let_def split: option.splits)
next
  case (Write req)
  with assms show ?thesis by (auto simp: WriteTo_def)
next
  case (Recv ch')
  with assms show ?thesis
    by (auto simp: recv_chan_def split: reader_pc.splits if_splits)
next
  case (CallClose cl)
  with assms show ?thesis
    by (auto simp: Close_def closeConnection_def Let_def split: option.splits if_splits)
next
  case (ReadResp r cl)
  with assms show ?thesis
    by (auto simp: readRespLoop_def closeConnection_def close_all_def Let_def
             split: if_splits readresult.splits option.splits)
next
  case IdLoopExit
  with assms show ?thesis by (auto simp: nextIDLoop_exit_def split: if_splits)
qed

lemma readRespLoop_deliver:
  assumes "conn_inv c" "reader c = RdRead" "respc c t = Some ch"
  shows "readRespLoop (Frame t b) cl c
           = Some (c\<lparr>respc := (respc c)(t := None), reader := RdSend ch b\<rparr>)"
proof -
  from assms(3) have "ch \<in> ran (respc c)" by (auto simp: ran_def)
  with assms(1,2) have "ch \<notin> closed_chans c" by (auto simp: conn_inv_def)
  with assms(2,3) show ?thesis by (simp add: readRespLoop_def Let_def)
qed

text \<open>
  Claim C1. In every reachable state where the reader is reading and token \<open>t\<close> is
  pending with channel \<open>ch\<close>, the reader's step on a frame \<open>(t, b)\<close> removes the
  entry of \<open>t\<close> from the table and leaves the reader sending \<open>b\<close> on \<open>ch\<close>, which
  is in no remaining entry. The receive on \<open>ch\<close> then yields exactly \<open>b\<close>, and leaves
  the channel closed; a receive on any other channel yields no payload. After that,
  whatever runs, a receive on \<open>ch\<close> yields the closed signal: no second payload.
  A payload is only ever sent on a channel by a frame whose token is bound to that
  channel, and every other pending token is still delivered to its own channel
  afterwards, whatever the order of arrival.
\<close>

theorem deliver_exactly_once:
  assumes "run as newTCPConnection = Some c"
    and "reader c = RdRead"
    and "respc c t = Some ch"
    and "c1 = c\<lparr>respc := (respc c)(t := None), reader := RdSend ch b\<rparr>"
    and "c2 = c1\<lparr>reader := RdRead, closed_chans := insert ch (closed_chans c1)\<rparr>"
  shows "readRespLoop (Frame t b) cl c = Some c1 \<and>
         respc c1 t = None \<and> ch \<notin> ran (respc c1) \<and>
         recv_chan ch c1 = Some (c2, b, True) \<and>
         (\<forall>ch' c' b'. ch' \<noteq> ch \<longrightarrow> recv_chan ch' c1 \<noteq> Some (c', b', True)) \<and>
         (\<forall>bs c3. run bs c2 = Some c3 \<longrightarrow> recv_chan ch c3 = Some (c3, [], False)) \<and>
         (\<forall>a c' ch' b'. step a c = Some c' \<and> reader c' = RdSend ch' b' \<longrightarrow>
            (\<exists>t' cl'. a = ReadResp (Frame t' b') cl' \<and> respc c t' = Some ch')) \<and>
         (\<forall>t' ch' b' cl'. t' \<noteq> t \<and> respc c t' = Some ch' \<longrightarrow>
            ch' \<noteq> ch \<and>
            readRespLoop (Frame t' b') cl' c2
              = Some (c2\<lparr>respc := (respc c2)(t' := None), reader := RdSend ch' b'\<rparr>))"
proof -
  have inv: "conn_inv c" using assms(1) by (rule inv_reachable)
  have d: "readRespLoop (Frame t b) cl c = Some c1"
    unfolding assms(4) using inv assms(2,3) by (rule readRespLoop_deliver)
  have inv1: "conn_inv c1" using inv d by (rule inv_readRespLoop)
  have gone: "respc c1 t = None" by (simp add: assms(4))
  have nr: "ch \<notin> ran (respc c1)"
    using inv1 by (simp add: conn_inv_def assms(4) del: fun_upd_apply)
  have nc: "ch \<notin> closed_chans c1"
    using inv1 by (simp add: conn_inv_def assms(4) del: fun_upd_apply)
  have rv: "recv_chan ch c1 = Some (c2, b, True)"
    using nc by (simp add: recv_chan_def assms(4,5))
  have others: "\<forall>ch' c' b'. ch' \<noteq> ch \<longrightarrow> recv_chan ch' c1 \<noteq> Some (c', b', True)"
    by (auto simp: recv_chan_def assms(4))
  have inv2: "conn_inv c2" using inv1 rv by (rule inv_recv_chan)
  have cl2: "ch \<in> closed_chans c2" by (simp add: assms(5))
  have never: "\<forall>bs c3. run bs c2 = Some c3 \<longrightarrow> recv_chan ch c3 = Some (c3, [], False)"
  proof (intro allI impI)
    fix bs c3
    assume r: "run bs c2 = Some c3"
    have "conn_inv c3" using inv2 r by (rule inv_run)
    moreover have "ch \<in> closed_chans c3" using cl2 r by (rule run_keeps_closed)
    ultimately show "recv_chan ch c3 = Some (c3, [], False)" by (rule recv_closed_chan)
  qed
  have origin: "\<forall>a c' ch' b'. step a c = Some c' \<and> reader c' = RdSend ch' b' \<longrightarrow>
            (\<exists>t' cl'. a = ReadResp (Frame t' b') cl' \<and> respc c t' = Some ch')"
    using send_only_from_frame [OF assms(2)] by blast
  have rest: "\<forall>t' ch' b' cl'. t' \<noteq> t \<and> respc c t' = Some ch' \<longrightarrow>
            ch' \<noteq> ch \<and>
            readRespLoop (Frame t' b') cl' c2
              = Some (c2\<lparr>respc := (respc c2)(t' := None), reader := RdSend ch' b'\<rparr>)"
  proof (intro allI impI, elim conjE)
    fix t' ch' b' cl'
    assume ne: "t' \<noteq> t" and e: "respc c t' = Some ch'"
    have e1: "respc c1 t' = Some ch'" using ne e by (simp add: assms(4))
    then have "ch' \<in> ran (respc c1)" by (auto simp: ran_def)
    with nr have d1: "ch' \<noteq> ch" by auto
    have "reader c2 = RdRead" "respc c2 t' = Some ch'"
      using e1 by (simp_all add: assms(5))
    with inv2 have "readRespLoop (Frame t' b') cl' c2
              = Some (c2\<lparr>respc := (respc c2)(t' := None), reader := RdSend ch' b'\<rparr>)"
      by (rule readRespLoop_deliver)
    with d1 show "ch' \<noteq> ch \<and>
            readRespLoop (Frame t' b') cl' c2
              = Some (c2\<lparr>respc := (respc c2)(t' := None), reader := RdSend ch' b'\<rparr>)"
      by simp
  qed
  from d gone nr rv others never origin rest show ?thesis by blast
qed

theorem deliver_exactly_once_witness:
  "run [RespWaiter 7, RespWaiter 8] newTCPConnection
     = Some (newTCPConnection\<lparr>nchans := 2, respc := [7 \<mapsto> 0, 8 \<mapsto> 1]\<rparr>) \<and>
   readRespLoop (Frame 8 [1, 2]) None
       (newTCPConnection\<lparr>nchans := 2, respc := [7 \<mapsto> 0, 8 \<mapsto> 1]\<rparr>)
     = Some (newTCPConnection\<lparr>nchans := 2, respc := [7 \<mapsto> 0],
                               reader := RdSend 1 [1, 2]\<rparr>) \<and>
   recv_chan 1 (newTCPConnection\<lparr>nchans := 2, respc := [7 \<mapsto> 0],
                               reader := RdSend 1 [1, 2]\<rparr>)
     = Some (newTCPConnection\<lparr>nchans := 2, respc := [7 \<mapsto> 0], closed_chans := {1}\<rparr>,
             [1, 2], True) \<and>
   recv_chan 0 (newTCPConnection\<lparr>nchans := 2, respc := [7 \<mapsto> 0],
                               reader := RdSend 1 [1, 2]\<rparr>) = None \<and>
   readRespLoop (Frame 7 [3]) None
       (newTCPConnection\<lparr>nchans := 2, respc := [7 \<mapsto> 0], closed_chans := {1}\<rparr>)
     = Some (newTCPConnection\<lparr>nchans := 2, respc := Map.empty, closed_chans := {1},
                               reader := RdSend 0 [3]\<rparr>)"
proof -
  let ?c = "newTCPConnection\<lparr>nchans := 2, respc := [7 \<mapsto> 0, 8 \<mapsto> 1]\<rparr>"
  have r: "run [RespWaiter 7, RespWaiter 8] newTCPConnection = Some ?c"
    by (simp add: respWaiter_def newTCPConnection_def)
  have rd: "reader ?c = RdRead" by (simp add: newTCPConnection_def)
  have e: "respc ?c 8 = Some 1" by simp
  have o: "recv_chan 0 (newTCPConnection\<lparr>nchans := 2, respc := [7 \<mapsto> 0],
                               reader := RdSend 1 [1, 2]\<rparr>) = None"
    by (simp add: recv_chan_def newTCPConnection_def)
  have m: "[(7::int32) \<mapsto> 0, 8 \<mapsto> 1](8 := None) = [7 \<mapsto> (0::nat)]"
          "[7 \<mapsto> 0](7 := None) = (Map.empty :: int32 \<rightharpoonup> nat)"
    by (auto simp: fun_eq_iff)
  show ?thesis
    using r o deliver_exactly_once [OF r rd e refl refl, of "[1, 2]" None]
    by (simp add: newTCPConnection_def m)
qed

section \<open>Orphan responses and reader failure\<close>

text \<open>
  Claim C6. In every reachable state where the reader is reading, its step on a frame
  whose token has no pending entry only appends the token to the log (the line
  \<^verbatim>\<open>response to unknown request\<close>): the reader has not panicked and is reading
  again, the table and the closed channels are as before, no receive on any channel
  yields the payload, and every pending token is still delivered to its channel by a
  later frame.
\<close>

theorem orphan_response_discarded:
  assumes "run as newTCPConnection = Some c"
    and "reader c = RdRead"
    and "respc c t = None"
    and "c' = c\<lparr>logged := logged c @ [t]\<rparr>"
  shows "readRespLoop (Frame t b) cl c = Some c' \<and>
         reader c' = RdRead \<and> \<not> panicked c' \<and>
         respc c' = respc c \<and> closed_chans c' = closed_chans c \<and>
         (\<forall>ch c'' b'. recv_chan ch c' \<noteq> Some (c'', b', True)) \<and>
         (\<forall>t' ch' b' cl'. respc c t' = Some ch' \<longrightarrow>
            readRespLoop (Frame t' b') cl' c'
              = Some (c'\<lparr>respc := (respc c')(t' := None), reader := RdSend ch' b'\<rparr>))"
proof -
  have inv: "conn_inv c" using assms(1) by (rule inv_reachable)
  have same: "(respc c)(t := None) = respc c" using assms(3) by (simp add: fun_upd_idem)
  have d: "readRespLoop (Frame t b) cl c = Some c'"
    using assms(2,3) by (simp add: readRespLoop_def Let_def same assms(4))
  have inv': "conn_inv c'" using inv d by (rule inv_readRespLoop)
  have rd: "reader c' = RdRead" using assms(2) by (simp add: assms(4))
  have np: "\<not> panicked c'" using inv' by (simp add: conn_inv_def)
  have nopay: "\<forall>ch c'' b'. recv_chan ch c' \<noteq> Some (c'', b', True)"
    using rd by (auto simp: recv_chan_def split: if_splits)
  have rest: "\<forall>t' ch' b' cl'. respc c t' = Some ch' \<longrightarrow>
            readRespLoop (Frame t' b') cl' c'
              = Some (c'\<lparr>respc := (respc c')(t' := None), reader := RdSend ch' b'\<rparr>)"
  proof (intro allI impI)
    fix t' ch' b' cl'
    assume "respc c t' = Some ch'"
    then have "respc c' t' = Some ch'" by (simp add: assms(4))
    with inv' rd show "readRespLoop (Frame t' b') cl' c'
              = Some (c'\<lparr>respc := (respc c')(t' := None), reader := RdSend ch' b'\<rparr>)"
      by (rule readRespLoop_deliver)
  qed
  have "respc c' = respc c" "closed_chans c' = closed_chans c" by (simp_all add: assms(4))
  with d rd np nopay rest show ?thesis by blast
qed

theorem orphan_response_discarded_witness:
  "run [RespWaiter 7] newTCPConnection
     = Some (newTCPConnection\<lparr>nchans := 1, respc := [7 \<mapsto> 0]\<rparr>) \<and>
   readRespLoop (Frame 9 [1]) None (newTCPConnection\<lparr>nchans := 1, respc := [7 \<mapsto> 0]\<rparr>)
     = Some (newTCPConnection\<lparr>nchans := 1, respc := [7 \<mapsto> 0], logged := [9]\<rparr>) \<and>
   readRespLoop (Frame 7 [2]) None
       (newTCPConnection\<lparr>nchans := 1, respc := [7 \<mapsto> 0], logged := [9]\<rparr>)
     = Some (newTCPConnection\<lparr>nchans := 1, respc := Map.empty, logged := [9],
                               reader := RdSend 0 [2]\<rparr>)"
proof -
  let ?c = "newTCPConnection\<lparr>nchans := 1, respc := [7 \<mapsto> 0]\<rparr>"
  have r: "run [RespWaiter 7] newTCPConnection = Some ?c"
    by (simp add: respWaiter_def newTCPConnection_def)
  have rd: "reader ?c = RdRead" by (simp add: newTCPConnection_def)
  have e: "respc ?c 9 = None" by simp
  have m: "[7 \<mapsto> 0](7 := None) = (Map.empty :: int32 \<rightharpoonup> nat)"
    by (auto simp: fun_eq_iff)
  show ?thesis
    using r orphan_response_discarded [OF r rd e refl, of "[1]" None]
    by (simp add: newTCPConnection_def m)
qed

lemma readRespLoop_failure:
  assumes "conn_inv c" "reader c = RdRead"
  shows "\<exists>c'. readRespLoop (ReadErr err) cl c = Some c' \<and> reader c' = RdReturned \<and>
          stopErr c' = Some (case stopErr c of None \<Rightarrow> err | Some e \<Rightarrow> e) \<and>
          closed_chans c' = closed_chans c \<union> ran (respc c) \<and> respc c' = respc c"
proof (cases "stopErr c")
  case None
  with assms closeConnection_first [OF assms(1) None, of err cl] show ?thesis
    by (simp add: readRespLoop_def close_all_def)
next
  case (Some e)
  with assms closeConnection_later [OF Some, of err cl] show ?thesis
    by (simp add: readRespLoop_def close_all_def)
qed

text \<open>
  Claim C2. In every reachable state where the reader is reading, its step on a read
  failure \<open>err\<close> completes: the reader has returned and takes no further step, a
  terminal reason is recorded (\<open>err\<close>, unless a reason was recorded before), nothing
  has panicked, and every channel that was pending is closed, so that a caller
  waiting on it receives the closed signal and returns nil with the recorded
  terminal reason.
\<close>

theorem read_failure_unblocks_waiters:
  assumes "run as newTCPConnection = Some c"
    and "reader c = RdRead"
  shows "\<exists>c'. readRespLoop (ReadErr err) cl c = Some c' \<and>
           reader c' = RdReturned \<and>
           stopErr c' = Some (case stopErr c of None \<Rightarrow> err | Some e \<Rightarrow> e) \<and>
           \<not> panicked c' \<and>
           (\<forall>r cl'. readRespLoop r cl' c' = None) \<and>
           (\<forall>t ch. respc c t = Some ch \<longrightarrow>
              ch \<in> closed_chans c' \<and>
              recv_chan ch c' = Some (c', [], False) \<and>
              (\<forall>dec. await_resp dec ch c' = Some (c', None, stopErr c')))"
proof -
  have inv: "conn_inv c" using assms(1) by (rule inv_reachable)
  obtain c' where d: "readRespLoop (ReadErr err) cl c = Some c'"
    and rd: "reader c' = RdReturned"
    and se: "stopErr c' = Some (case stopErr c of None \<Rightarrow> err | Some e \<Rightarrow> e)"
    and cc: "closed_chans c' = closed_chans c \<union> ran (respc c)"
    using readRespLoop_failure [OF inv assms(2)] by blast
  have inv': "conn_inv c'" using inv d by (rule inv_readRespLoop)
  have np: "\<not> panicked c'" using inv' by (simp add: conn_inv_def)
  have stay: "\<forall>r cl'. readRespLoop r cl' c' = None"
    using rd by (simp add: readRespLoop_def)
  have wake: "\<forall>t ch. respc c t = Some ch \<longrightarrow>
              ch \<in> closed_chans c' \<and>
              recv_chan ch c' = Some (c', [], False) \<and>
              (\<forall>dec. await_resp dec ch c' = Some (c', None, stopErr c'))"
  proof (intro allI impI)
    fix t ch
    assume "respc c t = Some ch"
    then have "ch \<in> ran (respc c)" by (auto simp: ran_def)
    with cc have c1: "ch \<in> closed_chans c'" by simp
    with inv' have c2: "recv_chan ch c' = Some (c', [], False)" by (rule recv_closed_chan)
    then have "\<forall>dec. await_resp dec ch c' = Some (c', None, stopErr c')"
      by (simp add: await_resp_def)
    with c1 c2 show "ch \<in> closed_chans c' \<and>
              recv_chan ch c' = Some (c', [], False) \<and>
              (\<forall>dec. await_resp dec ch c' = Some (c', None, stopErr c'))"
      by blast
  qed
  from d rd se np stay wake show ?thesis by blast
qed

theorem read_failure_unblocks_waiters_witness:
  "run [RespWaiter 7] newTCPConnection
     = Some (newTCPConnection\<lparr>nchans := 1, respc := [7 \<mapsto> 0]\<rparr>) \<and>
   readRespLoop (ReadErr (External ''EOF'')) None
       (newTCPConnection\<lparr>nchans := 1, respc := [7 \<mapsto> 0]\<rparr>)
     = Some (newTCPConnection\<lparr>nchans := 1, respc := [7 \<mapsto> 0],
               stopErr := Some (External ''EOF''), idloop := IdClose, stop_closed := True,
               rw_closes := 1, closed_chans := {0}, reader := RdReturned\<rparr>) \<and>
   await_resp (\<lambda>b. (Some b, None)) 0
       (newTCPConnection\<lparr>nchans := 1, respc := [7 \<mapsto> 0],
               stopErr := Some (External ''EOF''), idloop := IdClose, stop_closed := True,
               rw_closes := 1, closed_chans := {0}, reader := RdReturned\<rparr>)
     = Some (newTCPConnection\<lparr>nchans := 1, respc := [7 \<mapsto> 0],
               stopErr := Some (External ''EOF''), idloop := IdClose, stop_closed := True,
               rw_closes := 1, closed_chans := {0}, reader := RdReturned\<rparr>,
             None, Some (External ''EOF''))"
proof -
  let ?c = "newTCPConnection\<lparr>nchans := 1, respc := [7 \<mapsto> 0]\<rparr>"
  let ?c' = "newTCPConnection\<lparr>nchans := 1, respc := [7 \<mapsto> 0],
               stopErr := Some (External ''EOF''), idloop := IdClose, stop_closed := True,
               rw_closes := 1, closed_chans := {0}, reader := RdReturned\<rparr>"
  have r: "run [RespWaiter 7] newTCPConnection = Some ?c"
    by (simp add: respWaiter_def newTCPConnection_def)
  have rd: "reader ?c = RdRead" by (simp add: newTCPConnection_def)
  have d: "readRespLoop (ReadErr (External ''EOF'')) None ?c = Some ?c'"
    by (simp add: readRespLoop_def closeConnection_def close_all_def newTCPConnection_def)
  have e: "respc ?c 7 = Some 0" by simp
  from read_failure_unblocks_waiters [OF r rd, of "External ''EOF''" None]
  obtain c' where a: "readRespLoop (ReadErr (External ''EOF'')) None ?c = Some c'"
    and w: "\<forall>t ch. respc ?c t = Some ch \<longrightarrow>
              ch \<in> closed_chans c' \<and>
              recv_chan ch c' = Some (c', [], False) \<and>
              (\<forall>dec :: bytes \<Rightarrow> bytes option \<times> error option.
                 await_resp dec ch c' = Some (c', None, stopErr c'))"
    by blast
  from a d have c': "c' = ?c'" by simp
  from w e have "await_resp (\<lambda>b. (Some b, None)) 0 c' = Some (c', None, stopErr c')"
    by blast
  then have "await_resp (\<lambda>b. (Some b, None)) 0 ?c' = Some (?c', None, Some (External ''EOF''))"
    unfolding c' by simp
  with r d show ?thesis by simp
qed

section \<open>The operations on a closed connection and without acknowledgement\<close>

lemma recv_nextID_closed:
  assumes "nextID_closed c"
  shows "recv_nextID c = Some (c, 0, False)"
  using assms by (simp add: recv_nextID_def)

lemma closed_has_reason:
  assumes "conn_inv c" "nextID_closed c"
  shows "\<exists>e. stopErr c = Some e"
  using assms by (cases "stopErr c") (auto simp: conn_inv_def)

text \<open>
  Claim C7. In every reachable state where \<^verbatim>\<open>c.nextID\<close> is closed, a terminal
  reason is recorded, and each of the seven operations returns at once, without
  changing the connection, nil together with that terminal reason as its error.
\<close>

theorem rpc_on_closed_connection:
  assumes "run as newTCPConnection = Some c"
    and "nextID_closed c"
  shows "\<exists>e. stopErr c = Some e \<and>
           Metadata req we c = Some (c, ReturnNil (Some e)) \<and>
           Produce acksNone req we c = Some (c, ReturnNil (Some e)) \<and>
           Fetch req we c = Some (c, ReturnNil (Some e)) \<and>
           Offset req we c = Some (c, ReturnNil (Some e)) \<and>
           ConsumerMetadata req we c = Some (c, ReturnNil (Some e)) \<and>
           OffsetCommit req we c = Some (c, ReturnNil (Some e)) \<and>
           OffsetFetch req we c = Some (c, ReturnNil (Some e))"
proof -
  have inv: "conn_inv c" using assms(1) by (rule inv_reachable)
  obtain e where e: "stopErr c = Some e"
    using closed_has_reason [OF inv assms(2)] by blast
  note r = recv_nextID_closed [OF assms(2)]
  have "Metadata req we c = Some (c, ReturnNil (Some e))"
    by (simp add: Metadata_def r e)
  moreover have "Produce acksNone req we c = Some (c, ReturnNil (Some e))"
    by (simp add: Produce_def r e)
  moreover have "Fetch req we c = Some (c, ReturnNil (Some e))"
    by (simp add: Fetch_def r e)
  moreover have "Offset req we c = Some (c, ReturnNil (Some e))"
    by (simp add: Offset_def r e)
  moreover have "ConsumerMetadata req we c = Some (c, ReturnNil (Some e))"
    by (simp add: ConsumerMetadata_def r e)
  moreover have "OffsetCommit req we c = Some (c, ReturnNil (Some e))"
    by (simp add: OffsetCommit_def r e)
  moreover have "OffsetFetch req we c = Some (c, ReturnNil (Some e))"
    by (simp add: OffsetFetch_def r e)
  ultimately show ?thesis using e by blast
qed

theorem rpc_on_closed_connection_witness:
  "run [CallClose None, IdLoopExit] newTCPConnection
     = Some (newTCPConnection\<lparr>stopErr := Some ErrClosed, idloop := IdReturned,
               stop_closed := True, rw_closes := 1, nextID_closed := True\<rparr>) \<and>
   nextID_closed (newTCPConnection\<lparr>stopErr := Some ErrClosed, idloop := IdReturned,
               stop_closed := True, rw_closes := 1, nextID_closed := True\<rparr>) \<and>
   Metadata \<lparr>CorrelationID = 0, RequiredAcks = 1, ReplicaID = 0, body = []\<rparr> None
       (newTCPConnection\<lparr>stopErr := Some ErrClosed, idloop := IdReturned,
               stop_closed := True, rw_closes := 1, nextID_closed := True\<rparr>)
     = Some (newTCPConnection\<lparr>stopErr := Some ErrClosed, idloop := IdReturned,
               stop_closed := True, rw_closes := 1, nextID_closed := True\<rparr>,
             ReturnNil (Some ErrClosed)) \<and>
   Produce 0 \<lparr>CorrelationID = 0, RequiredAcks = 1, ReplicaID = 0, body = []\<rparr> None
       (newTCPConnection\<lparr>stopErr := Some ErrClosed, idloop := IdReturned,
               stop_closed := True, rw_closes := 1, nextID_closed := True\<rparr>)
     = Some (newTCPConnection\<lparr>stopErr := Some ErrClosed, idloop := IdReturned,
               stop_closed := True, rw_closes := 1, nextID_closed := True\<rparr>,
             ReturnNil (Some ErrClosed))"
proof -
  let ?c = "newTCPConnection\<lparr>stopErr := Some ErrClosed, idloop := IdReturned,
               stop_closed := True, rw_closes := 1, nextID_closed := True\<rparr>"
  have r: "run [CallClose None, IdLoopExit] newTCPConnection = Some ?c"
    by (simp add: Close_def closeConnection_def nextIDLoop_exit_def newTCPConnection_def)
  have n: "nextID_closed ?c" by simp
  have s: "stopErr ?c = Some ErrClosed" by simp
  from rpc_on_closed_connection [OF r n,
      of "\<lparr>CorrelationID = 0, RequiredAcks = 1, ReplicaID = 0, body = []\<rparr>" None 0]
  obtain e where e: "stopErr ?c = Some e"
    and m: "Metadata \<lparr>CorrelationID = 0, RequiredAcks = 1, ReplicaID = 0, body = []\<rparr> None ?c
              = Some (?c, ReturnNil (Some e))"
    and p: "Produce 0 \<lparr>CorrelationID = 0, RequiredAcks = 1, ReplicaID = 0, body = []\<rparr> None ?c
              = Some (?c, ReturnNil (Some e))"
    by blast
  from e s have "e = ErrClosed" by simp
  with r n m p show ?thesis by simp
qed

text \<open>
  Claim C8. For a produce request whose \<^verbatim>\<open>RequiredAcks\<close> is the no-acknowledgement
  value, in every reachable state: on an open connection \<^verbatim>\<open>Produce\<close> takes the next
  token, hands the request tagged with it to the stream and returns nil with the
  result of the write; and whenever it returns, the pending-request table, the
  channels made and the closed channels are as before, and it does not wait on a
  response channel.
\<close>

theorem Produce_no_acks_leaves_table:
  assumes "run as newTCPConnection = Some c"
    and "RequiredAcks req = acksNone"
  shows "(stopErr c = None \<longrightarrow>
            Produce acksNone req we c
              = Some (c\<lparr>next_id := nextIDLoop_incr (next_id c),
                        rw_written := rw_written c @ [req\<lparr>CorrelationID := next_id c\<rparr>]\<rparr>,
                      ReturnNil we)) \<and>
         (\<forall>c' p. Produce acksNone req we c = Some (c', p) \<longrightarrow>
            respc c' = respc c \<and> nchans c' = nchans c \<and>
            closed_chans c' = closed_chans c \<and> (\<forall>ch. p \<noteq> Await ch))"
proof -
  have inv: "conn_inv c" using assms(1) by (rule inv_reachable)
  have "stopErr c = None \<longrightarrow> \<not> nextID_closed c \<and> idloop c = IdSelect"
    using inv by (auto simp: conn_inv_def)
  then have a: "stopErr c = None \<longrightarrow>
            Produce acksNone req we c
              = Some (c\<lparr>next_id := nextIDLoop_incr (next_id c),
                        rw_written := rw_written c @ [req\<lparr>CorrelationID := next_id c\<rparr>]\<rparr>,
                      ReturnNil we)"
    using assms(2) by (simp add: Produce_def recv_nextID_def WriteTo_def Let_def)
  have b: "\<forall>c' p. Produce acksNone req we c = Some (c', p) \<longrightarrow>
            respc c' = respc c \<and> nchans c' = nchans c \<and>
            closed_chans c' = closed_chans c \<and> (\<forall>ch. p \<noteq> Await ch)"
    using assms(2)
    by (auto simp: Produce_def recv_nextID_def WriteTo_def Let_def split: if_splits)
  from a b show ?thesis by blast
qed

theorem Produce_no_acks_leaves_table_witness:
  "run [] newTCPConnection = Some newTCPConnection \<and>
   RequiredAcks \<lparr>CorrelationID = 0, RequiredAcks = 0, ReplicaID = 0, body = [5]\<rparr> = 0 \<and>
   Produce 0 \<lparr>CorrelationID = 0, RequiredAcks = 0, ReplicaID = 0, body = [5]\<rparr> None
       newTCPConnection
     = Some (newTCPConnection\<lparr>next_id := 2,
               rw_written := [\<lparr>CorrelationID = 1, RequiredAcks = 0, ReplicaID = 0, body = [5]\<rparr>]\<rparr>,
             ReturnNil None) \<and>
   respc (newTCPConnection\<lparr>next_id := 2,
               rw_written := [\<lparr>CorrelationID = 1, RequiredAcks = 0, ReplicaID = 0, body = [5]\<rparr>]\<rparr>)
     = Map.empty"
proof -
  have r: "run [] newTCPConnection = Some newTCPConnection" by simp
  have a: "RequiredAcks \<lparr>CorrelationID = 0, RequiredAcks = 0, ReplicaID = 0, body = [5]\<rparr> = 0"
    by simp
  have i: "nextIDLoop_incr 1 = 2" by (simp add: nextIDLoop_incr_def MaxInt32_def)
  show ?thesis
    using r Produce_no_acks_leaves_table [OF r a, of None]
    by (simp add: newTCPConnection_def i)
qed

section \<open>A failed write\<close>

lemma step_keeps_entry:
  assumes "respc c t = Some ch" "step a c = Some c'" "\<not> frame_for t a"
  shows "respc c' t = Some ch"
proof (cases a)
  case NextID
  with assms show ?thesis by (auto simp: recv_nextID_def split: if_splits)
next
  case (RespWaiter i)
  with assms show ?thesis
    by (cases "i = t") (auto simp: respWaiter_def Let_def split: option.splits)
next
  case (Write req)
  with assms show ?thesis by (auto simp: WriteTo_def)
next
  case (Recv ch')
  with assms show ?thesis
    by (auto simp: recv_chan_def split: reader_pc.splits if_splits)
next
  case (CallClose cl)
  with assms show ?thesis
    by (auto simp: Close_def closeConnection_def Let_def split: option.splits if_splits)
next
  case (ReadResp r cl)
  with assms show ?thesis
    by (cases r)
       (auto simp: readRespLoop_def closeConnection_def close_all_def Let_def
             split: if_splits option.splits)
next
  case IdLoopExit
  with assms show ?thesis by (auto simp: nextIDLoop_exit_def split: if_splits)
qed

lemma run_keeps_entry:
  assumes "respc c t = Some ch" "run bs c = Some c'" "\<forall>a \<in> set bs. \<not> frame_for t a"
  shows "respc c' t = Some ch"
  using assms
proof (induction bs arbitrary: c)
  case Nil
  then show ?case by simp
next
  case (Cons a bs)
  from Cons.prems(2) obtain c1 where s: "step a c = Some c1" and r: "run bs c1 = Some c'"
    by (auto split: option.splits)
  have "respc c1 t = Some ch" using Cons.prems(1) s Cons.prems(3) by (auto dest: step_keeps_entry)
  then show ?case using r Cons.prems(3) by (auto intro: Cons.IH)
qed

lemma recv_nextID_open:
  assumes "conn_inv c" "stopErr c = None"
  shows "recv_nextID c = Some (c\<lparr>next_id := nextIDLoop_incr (next_id c)\<rparr>, next_id c, True)"
  using assms by (auto simp: recv_nextID_def conn_inv_def)

lemma respWaiter_fresh:
  assumes "respc c t = None"
  shows "respWaiter t (c\<lparr>next_id := n\<rparr>)
           = (c\<lparr>next_id := n, nchans := Suc (nchans c), respc := (respc c)(t \<mapsto> nchans c)\<rparr>,
              Inr (nchans c))"
  using assms by (simp add: respWaiter_def Let_def)

text \<open>
  Claim C9. In every reachable state of an open connection whose next token \<open>t\<close> is
  not pending, each of the seven operations (\<^verbatim>\<open>Produce\<close> with acknowledgement
  required), when the write to the stream fails with \<open>e\<close>, returns nil with \<open>e\<close>
  after having registered \<open>t\<close>: the table is the old one plus the entry of \<open>t\<close>,
  and that entry is still there after any run in which the reader takes no frame with
  token \<open>t\<close> off the stream, a run that closes the connection included.
\<close>

theorem write_failure_leaves_entry:
  assumes "run as newTCPConnection = Some c"
    and "stopErr c = None"
    and "respc c (next_id c) = None"
    and "RequiredAcks req \<noteq> acksNone"
    and "t = next_id c" and "ch = nchans c"
  shows "\<forall>op \<in> set [Metadata, Produce acksNone, Fetch, Offset, ConsumerMetadata,
                      OffsetCommit, OffsetFetch].
           \<exists>c'. op req (Some e) c = Some (c', ReturnNil (Some e)) \<and>
             respc c' = (respc c)(t \<mapsto> ch) \<and>
             (\<forall>bs c''. run bs c' = Some c'' \<and> (\<forall>a \<in> set bs. \<not> frame_for t a) \<longrightarrow>
                respc c'' t = Some ch)"
proof -
  have inv: "conn_inv c" using assms(1) by (rule inv_reachable)
  note r = recv_nextID_open [OF inv assms(2)]
  note w = respWaiter_fresh [OF assms(3)]
  have keep: "\<And>c' :: connection. respc c' = (respc c)(t \<mapsto> ch) \<Longrightarrow>
     (\<forall>bs c''. run bs c' = Some c'' \<and> (\<forall>a \<in> set bs. \<not> frame_for t a) \<longrightarrow>
                respc c'' t = Some ch)"
  proof (intro allI impI, elim conjE)
    fix c' :: connection and bs c''
    assume "respc c' = (respc c)(t \<mapsto> ch)"
    then have "respc c' t = Some ch" by simp
    moreover assume "run bs c' = Some c''" "\<forall>a \<in> set bs. \<not> frame_for t a"
    ultimately show "respc c'' t = Some ch" by (rule run_keeps_entry)
  qed
  have rc: "\<And>op c'. op req (Some e) c = Some (c', ReturnNil (Some e)) \<Longrightarrow>
      respc c' = (respc c)(t \<mapsto> ch) \<Longrightarrow>
      \<exists>c'. op req (Some e) c = Some (c', ReturnNil (Some e)) \<and>
             respc c' = (respc c)(t \<mapsto> ch) \<and>
             (\<forall>bs c''. run bs c' = Some c'' \<and> (\<forall>a \<in> set bs. \<not> frame_for t a) \<longrightarrow>
                respc c'' t = Some ch)"
    using keep by blast
  let ?c' = "c\<lparr>next_id := nextIDLoop_incr (next_id c), nchans := Suc (nchans c),
               respc := (respc c)(t \<mapsto> ch),
               rw_written := rw_written c @ [req\<lparr>CorrelationID := t\<rparr>]\<rparr>"
  let ?c'' = "c\<lparr>next_id := nextIDLoop_incr (next_id c), nchans := Suc (nchans c),
               respc := (respc c)(t \<mapsto> ch),
               rw_written := rw_written c @ [req\<lparr>CorrelationID := t, ReplicaID := - 1\<rparr>]\<rparr>"
  have m: "Metadata req (Some e) c = Some (?c', ReturnNil (Some e))"
    by (simp add: Metadata_def r w WriteTo_def assms(5,6))
  have p: "Produce acksNone req (Some e) c = Some (?c', ReturnNil (Some e))"
    using assms(4) by (simp add: Produce_def r w WriteTo_def assms(5,6))
  have f: "Fetch req (Some e) c = Some (?c', ReturnNil (Some e))"
    by (simp add: Fetch_def r w WriteTo_def assms(5,6))
  have off: "Offset req (Some e) c = Some (?c'', ReturnNil (Some e))"
    by (simp add: Offset_def r w WriteTo_def assms(5,6))
  have cm: "ConsumerMetadata req (Some e) c = Some (?c', ReturnNil (Some e))"
    by (simp add: ConsumerMetadata_def r w WriteTo_def assms(5,6))
  have oc: "OffsetCommit req (Some e) c = Some (?c', ReturnNil (Some e))"
    by (simp add: OffsetCommit_def r w WriteTo_def assms(5,6))
  have ofe: "OffsetFetch req (Some e) c = Some (?c', ReturnNil (Some e))"
    by (simp add: OffsetFetch_def r w WriteTo_def assms(5,6))
  have e1: "respc ?c' = (respc c)(t \<mapsto> ch)" by simp
  have e2: "respc ?c'' = (respc c)(t \<mapsto> ch)" by simp
  show ?thesis
    using rc [where op = Metadata, OF m e1] rc [where op = "Produce acksNone", OF p e1]
      rc [where op = Fetch, OF f e1] rc [where op = Offset, OF off e2]
      rc [where op = ConsumerMetadata, OF cm e1] rc [where op = OffsetCommit, OF oc e1]
      rc [where op = OffsetFetch, OF ofe e1]
    by simp
qed

theorem write_failure_leaves_entry_witness:
  "run [] newTCPConnection = Some newTCPConnection \<and>
   stopErr newTCPConnection = None \<and>
   respc newTCPConnection (next_id newTCPConnection) = None \<and>
   RequiredAcks \<lparr>CorrelationID = 0, RequiredAcks = 1, ReplicaID = 0, body = [5]\<rparr> \<noteq> 0 \<and>
   Metadata \<lparr>CorrelationID = 0, RequiredAcks = 1, ReplicaID = 0, body = [5]\<rparr>
       (Some (External ''broken pipe'')) newTCPConnection
     = Some (newTCPConnection\<lparr>next_id := 2, nchans := 1, respc := [1 \<mapsto> 0],
               rw_written := [\<lparr>CorrelationID = 1, RequiredAcks = 1, ReplicaID = 0, body = [5]\<rparr>]\<rparr>,
             ReturnNil (Some (External ''broken pipe''))) \<and>
   run [CallClose None, IdLoopExit]
       (newTCPConnection\<lparr>next_id := 2, nchans := 1, respc := [1 \<mapsto> 0],
               rw_written := [\<lparr>CorrelationID = 1, RequiredAcks = 1, ReplicaID = 0, body = [5]\<rparr>]\<rparr>)
     = Some (newTCPConnection\<lparr>next_id := 2, nchans := 1, respc := [1 \<mapsto> 0],
               rw_written := [\<lparr>CorrelationID = 1, RequiredAcks = 1, ReplicaID = 0, body = [5]\<rparr>],
               stopErr := Some ErrClosed, idloop := IdReturned, stop_closed := True,
               rw_closes := 1, nextID_closed := True\<rparr>) \<and>
   respc (newTCPConnection\<lparr>next_id := 2, nchans := 1, respc := [1 \<mapsto> 0],
               rw_written := [\<lparr>CorrelationID = 1, RequiredAcks = 1, ReplicaID = 0, body = [5]\<rparr>],
               stopErr := Some ErrClosed, idloop := IdReturned, stop_closed := True,
               rw_closes := 1, nextID_closed := True\<rparr>) 1 = Some 0"
proof -
  let ?req = "\<lparr>CorrelationID = 0, RequiredAcks = 1, ReplicaID = 0, body = [5]\<rparr>"
  let ?e = "External ''broken pipe''"
  let ?c' = "newTCPConnection\<lparr>next_id := 2, nchans := 1, respc := [1 \<mapsto> 0],
               rw_written := [\<lparr>CorrelationID = 1, RequiredAcks = 1, ReplicaID = 0, body = [5]\<rparr>]\<rparr>"
  let ?c'' = "newTCPConnection\<lparr>next_id := 2, nchans := 1, respc := [1 \<mapsto> 0],
               rw_written := [\<lparr>CorrelationID = 1, RequiredAcks = 1, ReplicaID = 0, body = [5]\<rparr>],
               stopErr := Some ErrClosed, idloop := IdReturned, stop_closed := True,
               rw_closes := 1, nextID_closed := True\<rparr>"
  have r: "run [] newTCPConnection = Some newTCPConnection" by simp
  have s: "stopErr newTCPConnection = None" by (simp add: newTCPConnection_def)
  have n: "respc newTCPConnection (next_id newTCPConnection) = None"
    by (simp add: newTCPConnection_def)
  have a: "RequiredAcks ?req \<noteq> 0" by simp
  have t: "1 = next_id newTCPConnection" by (simp add: newTCPConnection_def)
  have ch: "0 = nchans newTCPConnection" by (simp add: newTCPConnection_def)
  have i: "nextIDLoop_incr 1 = 2" by (simp add: nextIDLoop_incr_def MaxInt32_def)
  have m: "Metadata ?req (Some ?e) newTCPConnection = Some (?c', ReturnNil (Some ?e))"
    by (simp add: Metadata_def recv_nextID_def respWaiter_def WriteTo_def
          newTCPConnection_def i)
  have r2: "run [CallClose None, IdLoopExit] ?c' = Some ?c''"
    by (simp add: Close_def closeConnection_def nextIDLoop_exit_def newTCPConnection_def)
  have nf: "\<forall>a \<in> set [CallClose None, IdLoopExit]. \<not> frame_for 1 a" by simp
  from write_failure_leaves_entry [OF r s n a t ch, of ?e]
  obtain c1 where m1: "Metadata ?req (Some ?e) newTCPConnection = Some (c1, ReturnNil (Some ?e))"
    and k: "\<forall>bs c''. run bs c1 = Some c'' \<and> (\<forall>a \<in> set bs. \<not> frame_for 1 a) \<longrightarrow>
               respc c'' 1 = Some 0"
    by auto
  from m m1 have "c1 = ?c'" by simp
  with k r2 nf have "respc ?c'' 1 = Some 0" by blast
  with r s n a m r2 show ?thesis by simp
qed

end
